theory Spec2Isabelle
  imports Main
begin

section \<open>Python values, errors and the parsed document\<close>

text \<open>
  The embedding follows \<^verbatim>\<open>rss_parser\<close> of \<^verbatim>\<open>rss_scrapper.py\<close>. Python values are
  dynamically typed, so the dictionaries \<^verbatim>\<open>channel\<close>, \<^verbatim>\<open>item_dict\<close> and \<^verbatim>\<open>data\<close> hold
  values of one type \<open>pyval\<close>. A dictionary is an association list in insertion order
  (the order \<^verbatim>\<open>json.dumps\<close> and \<^verbatim>\<open>repr\<close> print). A character of a model string stands
  for one code point below 256.
\<close>

datatype pyval = PNone | PStr string | PList "pyval list" | PDict "(string \<times> pyval) list"

type_synonym pydict = "(string \<times> pyval) list"

datatype error = ParseError | UnicodeEncodeError | TypeError | KeyError string | AttributeError

text \<open>
  An element as \<^verbatim>\<open>xml.etree.ElementTree\<close> presents it to the code: its tag, its text
  (\<^verbatim>\<open>None\<close> when there is no character data before the first child) and its children.
  Attributes and tails are never read by the code.
\<close>

datatype elem = Element (el_tag: string) (el_text: "string option") (el_children: "elem list")

text \<open>
  The argument \<^verbatim>\<open>xml\<close> enters the code only through \<^verbatim>\<open>ElT.fromstring(xml)\<close> (line 32).
  The parser belongs to the standard library and is not modelled: a document is given by
  what the parser does with it. Either it raises an error (\<^verbatim>\<open>ParseError\<close> on a text it
  finds not well-formed, \<^verbatim>\<open>UnicodeEncodeError\<close> on a text it cannot encode), or it
  accepts the text and returns the root element. Which texts the parser accepts is not
  part of the model; it accepts some texts that XML 1.0 excludes.
\<close>

datatype xml_doc = Raised error | WellFormed elem

fun fromstring :: "xml_doc \<Rightarrow> error + elem" where
  "fromstring (Raised err) = Inl err"
| "fromstring (WellFormed root) = Inr root"

definition err_bind :: "error + 'a \<Rightarrow> ('a \<Rightarrow> error + 'b) \<Rightarrow> error + 'b" where
  "err_bind m f = (case m of Inl e \<Rightarrow> Inl e | Inr x \<Rightarrow> f x)"

subsection \<open>Dictionaries\<close>

text \<open>\<^verbatim>\<open>d[k] = v\<close>: an existing key keeps its position, a new key goes last.\<close>

fun dict_set :: "string \<Rightarrow> pyval \<Rightarrow> pydict \<Rightarrow> pydict" where
  "dict_set k v [] = [(k, v)]"
| "dict_set k v ((k', v') # d) =
     (if k = k' then (k, v) # d else (k', v') # dict_set k v d)"

text \<open>\<^verbatim>\<open>d[k]\<close>: raises \<^verbatim>\<open>KeyError\<close> on a missing key.\<close>

definition dict_get :: "pydict \<Rightarrow> string \<Rightarrow> error + pyval" where
  "dict_get d k = (case map_of d k of None \<Rightarrow> Inl (KeyError k) | Some v \<Rightarrow> Inr v)"

subsection \<open>Strings: strip, join, repr, str\<close>

text \<open>\<^verbatim>\<open>str.isspace\<close> on the code points below 256.\<close>

definition isspace :: "char \<Rightarrow> bool" where
  "isspace c = ((of_char c :: nat) \<in> {9, 10, 11, 12, 13, 28, 29, 30, 31, 32, 133, 160})"

definition strip :: "string \<Rightarrow> string" where
  "strip s = rev (dropWhile isspace (rev (dropWhile isspace s)))"

fun join_strs :: "string \<Rightarrow> string list \<Rightarrow> string" where
  "join_strs sep [] = []"
| "join_strs sep [x] = x"
| "join_strs sep (x # y # ys) = x @ sep @ join_strs sep (y # ys)"

fun is_str :: "pyval \<Rightarrow> bool" where
  "is_str (PStr s) = True"
| "is_str v = False"

fun str_of :: "pyval \<Rightarrow> string" where
  "str_of (PStr s) = s"
| "str_of v = []"

text \<open>
  \<^verbatim>\<open>sep.join(v)\<close>: \<^verbatim>\<open>TypeError\<close> when \<open>v\<close> is not iterable or one of its elements is not
  a string; a string is iterated by characters, a dictionary by keys.
\<close>

definition py_join :: "string \<Rightarrow> pyval \<Rightarrow> error + string" where
  "py_join sep v =
     (case v of
        PNone \<Rightarrow> Inl TypeError
      | PStr s \<Rightarrow> Inr (join_strs sep (map (\<lambda>c. [c]) s))
      | PList xs \<Rightarrow>
          (if list_all is_str xs then Inr (join_strs sep (map str_of xs)) else Inl TypeError)
      | PDict kvs \<Rightarrow> Inr (join_strs sep (map fst kvs)))"

definition hexdigit :: "nat \<Rightarrow> char" where
  "hexdigit n = ''0123456789abcdef'' ! (n mod 16)"

definition hex2 :: "nat \<Rightarrow> string" where
  "hex2 n = [hexdigit (n div 16), hexdigit n]"

text \<open>\<^verbatim>\<open>repr\<close> of a string: the quote is double only when the string has a single quote
  and no double quote.\<close>

definition repr_quote :: "string \<Rightarrow> char" where
  "repr_quote s = (if CHR 0x27 \<in> set s \<and> CHR 0x22 \<notin> set s then CHR 0x22 else CHR 0x27)"

definition isprintable :: "char \<Rightarrow> bool" where
  "isprintable c =
     (let n = of_char c :: nat
      in \<not> (n < 32 \<or> n = 127 \<or> (128 \<le> n \<and> n \<le> 160) \<or> n = 173))"

definition repr_char :: "char \<Rightarrow> char \<Rightarrow> string" where
  "repr_char q c =
     (if c = q \<or> c = CHR 0x5C then [CHR 0x5C, c]
      else if c = CHR 0x09 then [CHR 0x5C, CHR ''t'']
      else if c = CHR 0x0A then [CHR 0x5C, CHR ''n'']
      else if c = CHR 0x0D then [CHR 0x5C, CHR ''r'']
      else if isprintable c then [c]
      else [CHR 0x5C, CHR ''x''] @ hex2 (of_char c))"

definition repr_str :: "string \<Rightarrow> string" where
  "repr_str s = (let q = repr_quote s in [q] @ concat (map (repr_char q) s) @ [q])"

fun repr :: "pyval \<Rightarrow> string" where
  "repr PNone = ''None''"
| "repr (PStr s) = repr_str s"
| "repr (PList xs) = ''['' @ join_strs '', '' (map repr xs) @ '']''"
| "repr (PDict kvs) =
     ''{'' @ join_strs '', '' (map (\<lambda>kv. repr_str (fst kv) @ '': '' @ repr (snd kv)) kvs) @ ''}''"

text \<open>The value an f-string field \<^verbatim>\<open>{v}\<close> prints: \<^verbatim>\<open>str(v)\<close>.\<close>

fun py_str :: "pyval \<Rightarrow> string" where
  "py_str (PStr s) = s"
| "py_str v = repr v"

subsection \<open>\<^verbatim>\<open>json.dumps(data, indent=2, ensure_ascii=False)\<close>\<close>

definition json_char :: "char \<Rightarrow> string" where
  "json_char c =
     (if c = CHR 0x22 then [CHR 0x5C, CHR 0x22]
      else if c = CHR 0x5C then [CHR 0x5C, CHR 0x5C]
      else if c = CHR 0x0A then [CHR 0x5C, CHR ''n'']
      else if c = CHR 0x0D then [CHR 0x5C, CHR ''r'']
      else if c = CHR 0x09 then [CHR 0x5C, CHR ''t'']
      else if c = CHR 0x08 then [CHR 0x5C, CHR ''b'']
      else if c = CHR 0x0C then [CHR 0x5C, CHR ''f'']
      else if (of_char c :: nat) < 32 then [CHR 0x5C, CHR ''u'', CHR ''0'', CHR ''0''] @ hex2 (of_char c)
      else [c])"

definition json_str :: "string \<Rightarrow> string" where
  "json_str s = [CHR 0x22] @ concat (map json_char s) @ [CHR 0x22]"

definition newline_indent :: "nat \<Rightarrow> string" where
  "newline_indent level = CHR 0x0A # replicate (2 * level) CHR '' ''"

fun dumps_at :: "nat \<Rightarrow> pyval \<Rightarrow> string" where
  "dumps_at level PNone = ''null''"
| "dumps_at level (PStr s) = json_str s"
| "dumps_at level (PList xs) =
     (if xs = [] then ''[]''
      else ''['' @ newline_indent (Suc level)
           @ join_strs ('','' @ newline_indent (Suc level)) (map (dumps_at (Suc level)) xs)
           @ newline_indent level @ '']'')"
| "dumps_at level (PDict kvs) =
     (if kvs = [] then ''{}''
      else ''{'' @ newline_indent (Suc level)
           @ join_strs ('','' @ newline_indent (Suc level))
               (map (\<lambda>kv. json_str (fst kv) @ '': '' @ dumps_at (Suc level) (snd kv)) kvs)
           @ newline_indent level @ ''}'')"

definition dumps :: "pyval \<Rightarrow> string" where
  "dumps v = dumps_at 0 v"

section \<open>Extraction (lines 29 to 71)\<close>

text \<open>\<^verbatim>\<open>elem.text\<close> as a Python value.\<close>

definition text_val :: "elem \<Rightarrow> pyval" where
  "text_val e = (case el_text e of None \<Rightarrow> PNone | Some s \<Rightarrow> PStr s)"

text \<open>\<^verbatim>\<open>elem.text.strip() if elem.text else None\<close>: \<^verbatim>\<open>None\<close> and the empty string are
  both false.\<close>

definition category_val :: "elem \<Rightarrow> pyval" where
  "category_val e =
     (case el_text e of None \<Rightarrow> PNone | Some s \<Rightarrow> if s = [] then PNone else PStr (strip s))"

text \<open>
  Lines 46 to 48 (and 66 to 68): create the list when the key is missing, then
  \<^verbatim>\<open>d['category'].append(v)\<close>. Only a list has \<^verbatim>\<open>append\<close>.
\<close>

definition append_category :: "pyval \<Rightarrow> pydict \<Rightarrow> error + pydict" where
  "append_category v d =
     (let d' = (if map_of d ''category'' = None then dict_set ''category'' (PList []) d else d)
      in case map_of d' ''category'' of
           Some (PList xs) \<Rightarrow> Inr (dict_set ''category'' (PList (xs @ [v])) d')
         | _ \<Rightarrow> Inl AttributeError)"

text \<open>The body of the loop over the children of the channel, lines 35 to 52.\<close>

definition channel_step :: "elem \<Rightarrow> pydict \<Rightarrow> error + pydict" where
  "channel_step e channel =
     (if el_tag e = ''title'' then Inr (dict_set ''title'' (text_val e) channel)
      else if el_tag e = ''link'' then Inr (dict_set ''link'' (text_val e) channel)
      else if el_tag e = ''lastBuildDate'' then Inr (dict_set ''lastBuildDate'' (text_val e) channel)
      else if el_tag e = ''pudDate'' then Inr (dict_set ''pubDate'' (text_val e) channel)
      else if el_tag e = ''language'' then Inr (dict_set ''language'' (text_val e) channel)
      else if el_tag e = ''category'' then append_category (category_val e) channel
      else if el_tag e = ''managingEditor'' then Inr (dict_set ''managingEditor'' (text_val e) channel)
      else if el_tag e = ''description'' then Inr (dict_set ''description'' (text_val e) channel)
      else Inr channel)"

fun channel_loop :: "elem list \<Rightarrow> pydict \<Rightarrow> error + pydict" where
  "channel_loop [] channel = Inr channel"
| "channel_loop (e # es) channel = err_bind (channel_step e channel) (channel_loop es)"

text \<open>The body of the loop over the children of an item, lines 57 to 70: a sequence of
  independent \<^verbatim>\<open>if\<close> statements.\<close>

definition item_step :: "elem \<Rightarrow> pydict \<Rightarrow> error + pydict" where
  "item_step el item_dict =
     (let d1 = (if el_tag el = ''title'' then dict_set ''title'' (text_val el) item_dict
                else item_dict);
          d2 = (if el_tag el = ''author'' then dict_set ''author'' (text_val el) d1 else d1);
          d3 = (if el_tag el = ''pubDate'' then dict_set ''pubDate'' (text_val el) d2 else d2);
          d4 = (if el_tag el = ''link'' then dict_set ''link'' (text_val el) d3 else d3)
      in err_bind
           (if el_tag el = ''category'' then append_category (category_val el) d4 else Inr d4)
           (\<lambda>d5. Inr (if el_tag el = ''description''
                       then dict_set ''description'' (text_val el) d5 else d5)))"

fun item_loop :: "elem list \<Rightarrow> pydict \<Rightarrow> error + pydict" where
  "item_loop [] item_dict = Inr item_dict"
| "item_loop (el # els) item_dict = err_bind (item_step el item_dict) (item_loop els)"

text \<open>The loop of lines 54 to 71 over the item elements found; \<open>item\<close> is the list
  built so far.\<close>

fun items_loop :: "elem list \<Rightarrow> pydict list \<Rightarrow> error + pydict list" where
  "items_loop [] item = Inr item"
| "items_loop (itm # itms) item =
     err_bind (item_loop (el_children itm) []) (\<lambda>item_dict. items_loop itms (item @ [item_dict]))"

text \<open>\<^verbatim>\<open>tree.find(t)\<close> for a plain tag: the first direct child with that tag, or
  \<^verbatim>\<open>None\<close>.\<close>

definition find_el :: "string \<Rightarrow> elem \<Rightarrow> elem option" where
  "find_el t tree = List.find (\<lambda>c. el_tag c = t) (el_children tree)"

text \<open>\<^verbatim>\<open>tree.findall(t1/t2)\<close>: the direct children tagged \<open>t2\<close> of every direct child
  tagged \<open>t1\<close>, in document order.\<close>

definition findall :: "string \<Rightarrow> string \<Rightarrow> elem \<Rightarrow> elem list" where
  "findall t1 t2 tree =
     concat (map (\<lambda>c. filter (\<lambda>i. el_tag i = t2) (el_children c))
                 (filter (\<lambda>c. el_tag c = t1) (el_children tree)))"

text \<open>Lines 34 to 71 on the parsed tree. Iterating over \<^verbatim>\<open>None\<close> (no channel found)
  raises \<^verbatim>\<open>TypeError\<close>.\<close>

definition extract_feed :: "elem \<Rightarrow> error + (pydict \<times> pydict list)" where
  "extract_feed tree =
     err_bind (case find_el ''channel'' tree of
                 None \<Rightarrow> Inl TypeError
               | Some c \<Rightarrow> channel_loop (el_children c) [])
       (\<lambda>channel. err_bind (items_loop (findall ''channel'' ''item'' tree) [])
          (\<lambda>item. Inr (channel, item)))"

section \<open>Rendering (lines 73 to 124)\<close>

text \<open>\<^verbatim>\<open>xs[:n]\<close>: a negative bound counts from the end.\<close>

definition slice_to :: "'a list \<Rightarrow> int \<Rightarrow> 'a list" where
  "slice_to xs n =
     (if n < 0 then take (nat (int (length xs) + n)) xs else take (nat n) xs)"

text \<open>\<^verbatim>\<open>item[:limit] if limit else item\<close> (lines 91 and 108): \<^verbatim>\<open>None\<close> and \<open>0\<close> are
  both false.\<close>

definition select_items :: "'a list \<Rightarrow> int option \<Rightarrow> 'a list" where
  "select_items item limit =
     (case limit of None \<Rightarrow> item | Some l \<Rightarrow> if l = 0 then item else slice_to item l)"

text \<open>\<^verbatim>\<open>if k in channel: data[k] = channel[k]\<close>.\<close>

definition copy_field :: "string \<Rightarrow> pydict \<Rightarrow> pydict \<Rightarrow> pydict" where
  "copy_field k channel data =
     (case map_of channel k of None \<Rightarrow> data | Some v \<Rightarrow> dict_set k v data)"

text \<open>The dictionary \<^verbatim>\<open>data\<close> of lines 74 to 91.\<close>

definition json_data :: "pydict \<Rightarrow> pydict list \<Rightarrow> int option \<Rightarrow> error + pydict" where
  "json_data channel item limit =
     (let data = copy_field ''title'' channel [];
          data = copy_field ''link'' channel data;
          data = copy_field ''lastBuildDate'' channel data;
          data = copy_field ''pubDate'' channel data;
          data = copy_field ''language'' channel data
      in err_bind
           (case map_of channel ''category'' of
              None \<Rightarrow> Inr data
            | Some c \<Rightarrow> err_bind (py_join [] c) (\<lambda>s. Inr (dict_set ''category'' (PStr s) data)))
           (\<lambda>data.
              let data = copy_field ''managingEditor'' channel data;
                  data = copy_field ''description'' channel data
              in Inr (dict_set ''items'' (PList (map PDict (select_items item limit))) data)))"

text \<open>The value every function returns is the list \<^verbatim>\<open>output\<close>. Its elements are
  strings, except that line 121 appends the description as it is, which may be
  \<^verbatim>\<open>None\<close>.\<close>

definition render_json :: "pydict \<Rightarrow> pydict list \<Rightarrow> int option \<Rightarrow> error + pyval list" where
  "render_json channel item limit =
     err_bind (json_data channel item limit) (\<lambda>data. Inr [PStr (dumps (PDict data))])"

text \<open>\<^verbatim>\<open>if k in d: output.append(f'label{d[k]}')\<close>.\<close>

definition opt_line :: "string \<Rightarrow> string \<Rightarrow> pydict \<Rightarrow> pyval list" where
  "opt_line label k d =
     (case map_of d k of None \<Rightarrow> [] | Some v \<Rightarrow> [PStr (label @ py_str v)])"

text \<open>Lines 94 to 107.\<close>

definition render_channel :: "pydict \<Rightarrow> error + pyval list" where
  "render_channel channel =
     err_bind (dict_get channel ''title'') (\<lambda>title.
     err_bind (dict_get channel ''link'') (\<lambda>link.
       Inr ([PStr (''Feed: '' @ py_str title), PStr (''Link: '' @ py_str link)]
            @ opt_line ''Last Build Date: '' ''lastBuildDate'' channel
            @ opt_line ''Publish Date: '' ''pubDate'' channel
            @ opt_line ''Language: '' ''language'' channel
            @ opt_line ''Categories: '' ''category'' channel
            @ opt_line ''Editor: '' ''managingEditor'' channel
            @ opt_line ''Description: '' ''description'' channel)))"

text \<open>Lines 109 to 122: the lines one item adds to \<^verbatim>\<open>output\<close>.\<close>

definition render_item :: "pydict \<Rightarrow> error + pyval list" where
  "render_item itm =
     err_bind (dict_get itm ''title'') (\<lambda>title.
     err_bind (case map_of itm ''category'' of
                 None \<Rightarrow> Inr []
               | Some c \<Rightarrow> err_bind (py_join '', '' c) (\<lambda>s. Inr [PStr (''Categories: '' @ s)]))
       (\<lambda>categories.
          Inr ([PStr '' '', PStr (''Title: '' @ py_str title)]
               @ opt_line ''Author: '' ''author'' itm
               @ opt_line ''Published: '' ''pubDate'' itm
               @ opt_line ''Link: '' ''link'' itm
               @ categories
               @ [PStr '' '']
               @ (case map_of itm ''description'' of None \<Rightarrow> [] | Some v \<Rightarrow> [v])
               @ [PStr '' ''])))"

fun text_loop :: "pydict list \<Rightarrow> pyval list \<Rightarrow> error + pyval list" where
  "text_loop [] output = Inr output"
| "text_loop (itm # itms) output =
     err_bind (render_item itm) (\<lambda>ls. text_loop itms (output @ ls))"

definition render_text :: "pydict \<Rightarrow> pydict list \<Rightarrow> int option \<Rightarrow> error + pyval list" where
  "render_text channel item limit =
     err_bind (render_channel channel) (\<lambda>output. text_loop (select_items item limit) output)"

definition render :: "pydict \<Rightarrow> pydict list \<Rightarrow> int option \<Rightarrow> bool \<Rightarrow> error + pyval list" where
  "render channel item limit json =
     (if json then render_json channel item limit else render_text channel item limit)"

section \<open>The function \<^verbatim>\<open>rss_parser\<close>\<close>

definition rss_parser :: "xml_doc \<Rightarrow> int option \<Rightarrow> bool \<Rightarrow> error + pyval list" where
  "rss_parser xml limit json =
     err_bind (fromstring xml) (\<lambda>tree.
     err_bind (extract_feed tree) (\<lambda>(channel, item). render channel item limit json))"

section \<open>Reference descriptions used in the statements\<close>

text \<open>The text of the last child of \<open>es\<close> tagged \<open>t\<close>, when there is one.\<close>

definition last_text :: "string \<Rightarrow> elem list \<Rightarrow> pyval option" where
  "last_text t es =
     (let cs = filter (\<lambda>e. el_tag e = t) es
      in if cs = [] then None else Some (text_val (last cs)))"

text \<open>
  A string \<open>t\<close> is the trimmed text of \<open>s\<close> when \<open>s\<close> is \<open>t\<close> between a run of
  whitespace before it and a run of whitespace after it, and \<open>t\<close> neither begins nor
  ends with whitespace.
\<close>

definition trimmed_text :: "string \<Rightarrow> string \<Rightarrow> bool" where
  "trimmed_text s t =
     (\<exists>pre post. s = pre @ t @ post \<and> list_all isspace pre \<and> list_all isspace post
        \<and> (t = [] \<or> (\<not> isspace (hd t) \<and> \<not> isspace (last t))))"

text \<open>What a \<open>category\<close> child contributes to the category sequence: null when the
  element has no text, its trimmed text otherwise.\<close>

definition category_text :: "elem \<Rightarrow> pyval \<Rightarrow> bool" where
  "category_text e v =
     (case el_text e of
        None \<Rightarrow> v = PNone
      | Some s \<Rightarrow> if s = [] then v = PNone else (\<exists>t. v = PStr t \<and> trimmed_text s t))"

text \<open>All the elements of a document tagged \<open>t\<close>, at any depth, in document order.\<close>

fun all_tagged :: "string \<Rightarrow> elem \<Rightarrow> elem list" where
  "all_tagged t (Element g x cs) =
     (if g = t then [Element g x cs] else []) @ concat (map (all_tagged t) cs)"

text \<open>The \<open>item\<close> children of an element.\<close>

definition item_children :: "elem \<Rightarrow> elem list" where
  "item_children c = filter (\<lambda>i. el_tag i = ''item'') (el_children c)"

text \<open>The feed of the example of section 8 of the specification: a channel with a
  title, a link and the two items A and B.\<close>

definition example_channel :: elem where
  "example_channel =
     Element ''channel'' None
       [Element ''title'' (Some ''Example'') [],
        Element ''link'' (Some ''http://x'') [],
        Element ''item'' None [Element ''title'' (Some ''A'') []],
        Element ''item'' None [Element ''title'' (Some ''B'') []]]"

definition example_doc :: xml_doc where
  "example_doc = WellFormed (Element ''rss'' None [example_channel])"

text \<open>A feed whose channel has one \<open>category\<close> child without text and nothing else.\<close>

definition empty_category_doc :: xml_doc where
  "empty_category_doc =
     WellFormed (Element ''rss'' None [Element ''channel'' None [Element ''category'' None []]])"

text \<open>Documents with a \<open>channel\<close> element that is not a direct child of the root:
  the root itself, and a grandchild of the root.\<close>

definition channel_root_tree :: elem where
  "channel_root_tree = Element ''channel'' None [Element ''title'' (Some ''T'') []]"

definition channel_nested_tree :: elem where
  "channel_nested_tree =
     Element ''rss'' None
       [Element ''feed'' None
          [Element ''channel'' None
             [Element ''title'' (Some ''T'') [], Element ''link'' (Some ''L'') []]]]"

text \<open>Documents with two \<open>channel\<close> elements: one inside the other, two below a
  child of the root, and two direct children of the root.\<close>

definition channel_in_channel_tree :: elem where
  "channel_in_channel_tree =
     Element ''rss'' None
       [Element ''channel'' None
          [Element ''title'' (Some ''T'') [],
           Element ''channel'' None [Element ''item'' None [Element ''title'' (Some ''I'') []]]]]"

definition channels_below_child_tree :: elem where
  "channels_below_child_tree =
     Element ''rss'' None
       [Element ''feeds'' None [Element ''channel'' None [], Element ''channel'' None []]]"

definition two_channels_tree :: elem where
  "two_channels_tree =
     Element ''rss'' None
       [Element ''channel'' None
          [Element ''title'' (Some ''T1'') [],
           Element ''item'' None [Element ''title'' (Some ''I1'') []]],
        Element ''channel'' None
          [Element ''title'' (Some ''T2'') [],
           Element ''item'' None [Element ''title'' (Some ''I2'') []]]]"

text \<open>A feed whose channel has a title, a link and one \<open>category\<close> child without
  text.\<close>

definition null_category_doc :: xml_doc where
  "null_category_doc =
     WellFormed (Element ''rss'' None
       [Element ''channel'' None
          [Element ''title'' (Some ''T'') [],
           Element ''link'' (Some ''L'') [],
           Element ''category'' None []]])"


section \<open>The state of the loops, named for the proofs\<close>

text \<open>These definitions name what the extraction loops have built after a list of
  children. They serve to state the loop invariants; the statements of the claims
  do not use them.\<close>

text \<open>The category list as the loops build it with \<open>category_val\<close>.\<close>

definition category_seq :: "elem list \<Rightarrow> pyval option" where
  "category_seq es =
     (let cs = filter (\<lambda>e. el_tag e = ''category'') es
      in if cs = [] then None else Some (PList (map category_val cs)))"

text \<open>The contents of the channel record and of the item record after the loops, key by
  key.\<close>

definition channel_fields :: "elem list \<Rightarrow> string \<Rightarrow> pyval option" where
  "channel_fields es k =
     (if k = ''title'' then last_text ''title'' es
      else if k = ''link'' then last_text ''link'' es
      else if k = ''lastBuildDate'' then last_text ''lastBuildDate'' es
      else if k = ''pubDate'' then last_text ''pudDate'' es
      else if k = ''language'' then last_text ''language'' es
      else if k = ''category'' then category_seq es
      else if k = ''managingEditor'' then last_text ''managingEditor'' es
      else if k = ''description'' then last_text ''description'' es
      else None)"

definition item_fields :: "elem list \<Rightarrow> string \<Rightarrow> pyval option" where
  "item_fields es k =
     (if k = ''title'' then last_text ''title'' es
      else if k = ''author'' then last_text ''author'' es
      else if k = ''pubDate'' then last_text ''pubDate'' es
      else if k = ''link'' then last_text ''link'' es
      else if k = ''category'' then category_seq es
      else if k = ''description'' then last_text ''description'' es
      else None)"

section \<open>Basic facts\<close>

lemma err_bind_simps [simp]:
  "err_bind (Inl e) f = Inl e" "err_bind (Inr x) f = f x"
  by (simp_all add: err_bind_def)

lemma map_of_dict_set: "map_of (dict_set k v d) k' = (if k' = k then Some v else map_of d k')"
  by (induction d) auto

lemma last_text_Nil [simp]: "last_text t [] = None"
  by (simp add: last_text_def)

lemma last_text_snoc:
  "last_text t (es @ [e]) = (if el_tag e = t then Some (text_val e) else last_text t es)"
  by (simp add: last_text_def Let_def)

lemma last_text_present: "(last_text t es \<noteq> None) = (t \<in> set (map el_tag es))"
  by (auto simp: last_text_def Let_def filter_empty_conv)

lemma category_seq_Nil [simp]: "category_seq [] = None"
  by (simp add: category_seq_def)

lemma category_seq_snoc:
  "category_seq (es @ [e]) =
     (if el_tag e = ''category''
      then Some (PList ((case category_seq es of Some (PList xs) \<Rightarrow> xs | _ \<Rightarrow> []) @ [category_val e]))
      else category_seq es)"
  by (simp add: category_seq_def Let_def)

lemma category_seq_present: "(category_seq es \<noteq> None) = (''category'' \<in> set (map el_tag es))"
  by (force simp: category_seq_def Let_def filter_empty_conv)

lemma find_filter: "List.find P xs = (case filter P xs of [] \<Rightarrow> None | x # _ \<Rightarrow> Some x)"
  by (induction xs) auto

lemma find_el_first:
  "filter (\<lambda>c. el_tag c = t) (el_children tree) = c # cs \<Longrightarrow> find_el t tree = Some c"
  by (simp add: find_el_def find_filter)

lemma find_el_None: "(find_el t tree = None) = (t \<notin> set (map el_tag (el_children tree)))"
  by (auto simp: find_el_def find_None_iff)

section \<open>Trimming\<close>

text \<open>\<open>strip\<close> returns the trimmed text, and the trimmed text is unique.\<close>

lemma strip_unique:
  assumes "trimmed_text s t"
  shows "strip s = t"
proof -
  from assms obtain pre post where s: "s = pre @ t @ post"
    and pre: "list_all isspace pre" and post: "list_all isspace post"
    and t: "t = [] \<or> (\<not> isspace (hd t) \<and> \<not> isspace (last t))"
    unfolding trimmed_text_def by blast
  have d1: "dropWhile isspace s = dropWhile isspace (t @ post)"
    unfolding s using pre by (simp add: dropWhile_append2 list_all_iff)
  show ?thesis
  proof (cases "t = []")
    case True
    have e: "dropWhile isspace s = []"
      unfolding d1 True using post by (simp add: list_all_iff)
    show ?thesis unfolding strip_def e True by simp
  next
    case False
    with t have h: "\<not> isspace (hd t)" and l: "\<not> isspace (last t)" by simp_all
    from False h have "dropWhile isspace (t @ post) = t @ post"
      by (cases t) simp_all
    with d1 have "rev (dropWhile isspace s) = rev post @ rev t" by simp
    moreover have "dropWhile isspace (rev post @ rev t) = dropWhile isspace (rev t)"
      using post by (intro dropWhile_append2) (auto simp: list_all_iff)
    moreover have "dropWhile isspace (rev t) = rev t"
      using False l by (cases "rev t") (simp_all add: hd_rev[symmetric])
    ultimately show ?thesis by (simp add: strip_def)
  qed
qed

lemma strip_trimmed: "trimmed_text s (strip s)"
proof -
  let ?r = "dropWhile isspace s"
  let ?u = "dropWhile isspace (rev ?r)"
  let ?w = "takeWhile isspace (rev ?r)"
  have t: "strip s = rev ?u" by (simp add: strip_def)
  have "rev ?u @ rev ?w = rev (?w @ ?u)" by (simp only: rev_append)
  also have "\<dots> = rev (rev ?r)" by (simp only: takeWhile_dropWhile_id)
  also have "\<dots> = ?r" by (simp only: rev_rev_ident)
  finally have r: "?r = rev ?u @ rev ?w" by (rule sym)
  have s: "s = takeWhile isspace s @ rev ?u @ rev ?w"
    using r takeWhile_dropWhile_id[of isspace s] by simp
  have pre: "list_all isspace (takeWhile isspace s)"
    by (auto simp: list_all_iff dest: set_takeWhileD)
  have post: "list_all isspace (rev ?w)"
    by (auto simp: list_all_iff dest: set_takeWhileD)
  have e: "\<not> isspace (hd (rev ?u)) \<and> \<not> isspace (last (rev ?u))" if ne: "rev ?u \<noteq> []"
  proof -
    from ne have u: "?u \<noteq> []" by simp
    then have "\<not> isspace (hd ?u)" by (rule hd_dropWhile)
    then have l: "\<not> isspace (last (rev ?u))" using u by (simp add: last_rev)
    have "?r \<noteq> []" using ne by (subst r) simp
    then have "\<not> isspace (hd ?r)" by (rule hd_dropWhile)
    moreover have "hd ?r = hd (rev ?u)" using ne by (subst r) simp
    ultimately show ?thesis using l by simp
  qed
  show ?thesis
    unfolding trimmed_text_def t using s pre post e by blast
qed

lemma category_val_text: "category_text e (category_val e)"
  by (simp add: category_text_def category_val_def strip_trimmed split: option.splits)

lemma category_text_unique: "category_text e v \<Longrightarrow> v = category_val e"
  by (auto simp: category_text_def category_val_def strip_unique split: option.splits if_splits)

section \<open>The extraction loops\<close>

lemma channel_loop_snoc:
  "channel_loop (es @ [e]) d = err_bind (channel_loop es d) (channel_step e)"
proof (induction es arbitrary: d)
  case Nil
  show ?case by (cases "channel_step e d") simp_all
next
  case (Cons a es)
  show ?case by (cases "channel_step a d") (simp_all add: Cons.IH)
qed

lemma item_loop_snoc:
  "item_loop (es @ [e]) d = err_bind (item_loop es d) (item_step e)"
proof (induction es arbitrary: d)
  case Nil
  show ?case by (cases "item_step e d") simp_all
next
  case (Cons a es)
  show ?case by (cases "item_step a d") (simp_all add: Cons.IH)
qed

text \<open>Appending to the category list succeeds whenever the key is missing or holds a
  list, which the loops maintain.\<close>

lemma append_category_map:
  assumes "map_of d ''category'' = None \<or> (\<exists>xs. map_of d ''category'' = Some (PList xs))"
  shows "\<exists>d'. append_category v d = Inr d' \<and>
           (\<forall>k. map_of d' k =
              (if k = ''category''
               then Some (PList ((case map_of d ''category'' of Some (PList xs) \<Rightarrow> xs | _ \<Rightarrow> []) @ [v]))
               else map_of d k))"
  using assms by (auto simp: append_category_def map_of_dict_set Let_def)

lemma category_seq_shape:
  "category_seq es = None \<or> (\<exists>xs. category_seq es = Some (PList xs))"
  by (simp add: category_seq_def Let_def)

lemma channel_loop_fields:
  "\<exists>ch. channel_loop es [] = Inr ch \<and> (\<forall>k. map_of ch k = channel_fields es k)"
proof (induction es rule: rev_induct)
  case Nil
  show ?case by (simp add: channel_fields_def)
next
  case (snoc e es)
  then obtain ch where ch: "channel_loop es [] = Inr ch"
    and f: "\<And>k. map_of ch k = channel_fields es k" by blast
  have cat: "map_of ch ''category'' = category_seq es"
    by (simp add: f channel_fields_def)
  show ?case
  proof (cases "el_tag e = ''category''")
    case True
    have "map_of ch ''category'' = None \<or> (\<exists>xs. map_of ch ''category'' = Some (PList xs))"
      using category_seq_shape[of es] by (simp add: cat)
    from append_category_map[OF this, of "category_val e"]
    obtain d' where d': "append_category (category_val e) ch = Inr d'"
      and m: "\<And>k. map_of d' k =
              (if k = ''category''
               then Some (PList ((case map_of ch ''category'' of Some (PList xs) \<Rightarrow> xs | _ \<Rightarrow> [])
                                 @ [category_val e]))
               else map_of ch k)" by blast
    have "channel_loop (es @ [e]) [] = Inr d'"
      by (simp add: channel_loop_snoc ch channel_step_def True d')
    moreover have "map_of d' k = channel_fields (es @ [e]) k" for k
      by (simp add: m f cat channel_fields_def last_text_snoc category_seq_snoc True)
    ultimately show ?thesis by blast
  next
    case False
    have "\<exists>d'. channel_step e ch = Inr d' \<and> (\<forall>k. map_of d' k = channel_fields (es @ [e]) k)"
      using False
      by (simp add: channel_step_def map_of_dict_set f channel_fields_def
            last_text_snoc category_seq_snoc)
    then show ?thesis by (simp add: channel_loop_snoc ch)
  qed
qed

lemma item_loop_fields:
  "\<exists>d. item_loop es [] = Inr d \<and> (\<forall>k. map_of d k = item_fields es k)"
proof (induction es rule: rev_induct)
  case Nil
  show ?case by (simp add: item_fields_def)
next
  case (snoc e es)
  then obtain d where d: "item_loop es [] = Inr d"
    and f: "\<And>k. map_of d k = item_fields es k" by blast
  have cat: "map_of d ''category'' = category_seq es"
    by (simp add: f item_fields_def)
  show ?case
  proof (cases "el_tag e = ''category''")
    case True
    have "map_of d ''category'' = None \<or> (\<exists>xs. map_of d ''category'' = Some (PList xs))"
      using category_seq_shape[of es] by (simp add: cat)
    from append_category_map[OF this, of "category_val e"]
    obtain d' where d': "append_category (category_val e) d = Inr d'"
      and m: "\<And>k. map_of d' k =
              (if k = ''category''
               then Some (PList ((case map_of d ''category'' of Some (PList xs) \<Rightarrow> xs | _ \<Rightarrow> [])
                                 @ [category_val e]))
               else map_of d k)" by blast
    have "item_loop (es @ [e]) [] = Inr d'"
      by (simp add: item_loop_snoc d item_step_def True d')
    moreover have "map_of d' k = item_fields (es @ [e]) k" for k
      by (simp add: m f cat item_fields_def last_text_snoc category_seq_snoc True)
    ultimately show ?thesis by blast
  next
    case False
    have "\<exists>d'. item_step e d = Inr d' \<and> (\<forall>k. map_of d' k = item_fields (es @ [e]) k)"
      using False
      by (simp add: item_step_def map_of_dict_set f item_fields_def
            last_text_snoc category_seq_snoc)
    then show ?thesis by (simp add: item_loop_snoc d)
  qed
qed

text \<open>A child tagged \<open>pubDate\<close> leaves the channel record as it is.\<close>

lemma channel_loop_skip_pubDate:
  "channel_loop (filter (\<lambda>e. el_tag e \<noteq> ''pubDate'') es) d = channel_loop es d"
proof (induction es arbitrary: d)
  case Nil
  show ?case by simp
next
  case (Cons e es)
  show ?case
  proof (cases "el_tag e = ''pubDate''")
    case True
    then have "channel_step e d = Inr d" by (simp add: channel_step_def)
    with True show ?thesis by (simp add: Cons.IH)
  next
    case False
    then show ?thesis by (cases "channel_step e d") (simp_all add: Cons.IH)
  qed
qed

text \<open>The item records correspond, one by one and in order, to the item elements.\<close>

lemma items_loop_all2:
  "\<exists>item'. items_loop els item = Inr (item @ item') \<and>
      list_all2 (\<lambda>el d. item_loop (el_children el) [] = Inr d) els item'"
proof (induction els arbitrary: item)
  case Nil
  show ?case by simp
next
  case (Cons el els)
  obtain d where d: "item_loop (el_children el) [] = Inr d"
    using item_loop_fields by blast
  from Cons.IH[of "item @ [d]"] obtain r where
    r: "items_loop els (item @ [d]) = Inr ((item @ [d]) @ r)"
       "list_all2 (\<lambda>el d. item_loop (el_children el) [] = Inr d) els r" by blast
  have "items_loop (el # els) item = Inr (item @ (d # r))"
    by (simp add: d r)
  moreover have "list_all2 (\<lambda>el d. item_loop (el_children el) [] = Inr d) (el # els) (d # r)"
    by (simp add: d r)
  ultimately show ?case by blast
qed

lemma extract_feed_no_channel:
  "''channel'' \<notin> set (map el_tag (el_children tree)) \<Longrightarrow> extract_feed tree = Inl TypeError"
  using find_el_None[of "''channel''" tree] by (simp add: extract_feed_def)

lemma extract_feed_channel:
  assumes "find_el ''channel'' tree = Some c"
  shows "\<exists>channel item. extract_feed tree = Inr (channel, item)
           \<and> channel_loop (el_children c) [] = Inr channel
           \<and> list_all2 (\<lambda>el d. item_loop (el_children el) [] = Inr d)
                (findall ''channel'' ''item'' tree) item"
proof -
  obtain channel where ch: "channel_loop (el_children c) [] = Inr channel"
    using channel_loop_fields by blast
  obtain item where it: "items_loop (findall ''channel'' ''item'' tree) [] = Inr ([] @ item)"
    and all2: "list_all2 (\<lambda>el d. item_loop (el_children el) [] = Inr d)
                 (findall ''channel'' ''item'' tree) item"
    using items_loop_all2 by blast
  have "extract_feed tree = Inr (channel, item)"
    using it by (simp add: extract_feed_def assms ch)
  with ch all2 show ?thesis by blast
qed

lemma channel_loop_fields_eq:
  "channel_loop es [] = Inr channel \<Longrightarrow> map_of channel k = channel_fields es k"
  using channel_loop_fields[of es] by auto

lemma item_loop_fields_eq:
  "item_loop es [] = Inr item_dict \<Longrightarrow> map_of item_dict k = item_fields es k"
  using item_loop_fields[of es] by auto

section \<open>Extraction: which child fills which field\<close>

text \<open>
  Claim C5. During extraction, for the channel and for every item, each recognised field
  other than \<open>category\<close> holds the text of the last direct child that carries the tag of
  the field (later children overwrite earlier ones; the channel field \<open>pubDate\<close> has the
  tag \<open>pudDate\<close>). The field \<open>category\<close> holds a list with one element for every
  \<open>category\<close> child, in document order: null for a child without text, and otherwise the
  trimmed text of the child, which is its text without the whitespace before and after
  and is determined by the text. A field is present exactly when its tag occurs among
  the direct children, and no other field is ever set. Both loops run to their end on
  every list of children \<open>es\<close>.
\<close>

theorem extraction_last_wins_categories_accumulate:
  "(\<exists>channel vs. channel_loop es [] = Inr channel
      \<and> map_of channel ''title'' = last_text ''title'' es
      \<and> map_of channel ''link'' = last_text ''link'' es
      \<and> map_of channel ''lastBuildDate'' = last_text ''lastBuildDate'' es
      \<and> map_of channel ''pubDate'' = last_text ''pudDate'' es
      \<and> map_of channel ''language'' = last_text ''language'' es
      \<and> map_of channel ''managingEditor'' = last_text ''managingEditor'' es
      \<and> map_of channel ''description'' = last_text ''description'' es
      \<and> map_of channel ''category''
          = (if filter (\<lambda>e. el_tag e = ''category'') es = [] then None else Some (PList vs))
      \<and> list_all2 category_text (filter (\<lambda>e. el_tag e = ''category'') es) vs
      \<and> dom (map_of channel) \<subseteq> set [''title'', ''link'', ''lastBuildDate'', ''pubDate'',
             ''language'', ''category'', ''managingEditor'', ''description''])
   \<and> (\<exists>item_dict vs. item_loop es [] = Inr item_dict
      \<and> map_of item_dict ''title'' = last_text ''title'' es
      \<and> map_of item_dict ''author'' = last_text ''author'' es
      \<and> map_of item_dict ''pubDate'' = last_text ''pubDate'' es
      \<and> map_of item_dict ''link'' = last_text ''link'' es
      \<and> map_of item_dict ''description'' = last_text ''description'' es
      \<and> map_of item_dict ''category''
          = (if filter (\<lambda>e. el_tag e = ''category'') es = [] then None else Some (PList vs))
      \<and> list_all2 category_text (filter (\<lambda>e. el_tag e = ''category'') es) vs
      \<and> dom (map_of item_dict) \<subseteq> set [''title'', ''author'', ''pubDate'', ''link'',
             ''category'', ''description''])
   \<and> (last_text t es \<noteq> None) = (t \<in> set (map el_tag es))
   \<and> (filter (\<lambda>e. el_tag e = ''category'') es \<noteq> []) = (''category'' \<in> set (map el_tag es))
   \<and> last_text t es
       = (if filter (\<lambda>e. el_tag e = t) es = [] then None
          else Some (case el_text (last (filter (\<lambda>e. el_tag e = t) es)) of
                       None \<Rightarrow> PNone | Some x \<Rightarrow> PStr x))
   \<and> (category_text e v \<and> category_text e v' \<longrightarrow> v = v')
   \<and> (trimmed_text s x \<and> trimmed_text s x' \<longrightarrow> x = x')"
proof -
  let ?cs = "filter (\<lambda>e. el_tag e = ''category'') es"
  let ?vs = "map category_val ?cs"
  have all2: "list_all2 category_text ?cs ?vs"
    by (simp add: list_all2_map2 list_all2_same category_val_text)
  obtain ch where ch: "channel_loop es [] = Inr ch"
    and f: "\<And>k. map_of ch k = channel_fields es k"
    using channel_loop_fields by blast
  have dc: "dom (map_of ch) \<subseteq> set [''title'', ''link'', ''lastBuildDate'', ''pubDate'',
             ''language'', ''category'', ''managingEditor'', ''description'']"
  proof
    fix k assume "k \<in> dom (map_of ch)"
    then have "channel_fields es k \<noteq> None" by (auto simp: f)
    then show "k \<in> set [''title'', ''link'', ''lastBuildDate'', ''pubDate'',
             ''language'', ''category'', ''managingEditor'', ''description'']"
      unfolding channel_fields_def by (simp split: if_splits)
  qed
  have cc: "map_of ch ''category'' = (if ?cs = [] then None else Some (PList ?vs))"
    by (simp add: f channel_fields_def category_seq_def Let_def)
  have c: "\<exists>channel vs. channel_loop es [] = Inr channel
      \<and> map_of channel ''title'' = last_text ''title'' es
      \<and> map_of channel ''link'' = last_text ''link'' es
      \<and> map_of channel ''lastBuildDate'' = last_text ''lastBuildDate'' es
      \<and> map_of channel ''pubDate'' = last_text ''pudDate'' es
      \<and> map_of channel ''language'' = last_text ''language'' es
      \<and> map_of channel ''managingEditor'' = last_text ''managingEditor'' es
      \<and> map_of channel ''description'' = last_text ''description'' es
      \<and> map_of channel ''category'' = (if ?cs = [] then None else Some (PList vs))
      \<and> list_all2 category_text ?cs vs
      \<and> dom (map_of channel) \<subseteq> set [''title'', ''link'', ''lastBuildDate'', ''pubDate'',
             ''language'', ''category'', ''managingEditor'', ''description'']"
  proof -
    have "map_of ch ''title'' = last_text ''title'' es"
      and "map_of ch ''link'' = last_text ''link'' es"
      and "map_of ch ''lastBuildDate'' = last_text ''lastBuildDate'' es"
      and "map_of ch ''pubDate'' = last_text ''pudDate'' es"
      and "map_of ch ''language'' = last_text ''language'' es"
      and "map_of ch ''managingEditor'' = last_text ''managingEditor'' es"
      and "map_of ch ''description'' = last_text ''description'' es"
      by (simp_all add: f channel_fields_def)
    then show ?thesis
      by (intro exI[of _ ch] exI[of _ ?vs] conjI ch cc all2 dc)
  qed
  obtain d where d: "item_loop es [] = Inr d"
    and g: "\<And>k. map_of d k = item_fields es k"
    using item_loop_fields by blast
  have di: "dom (map_of d) \<subseteq> set [''title'', ''author'', ''pubDate'', ''link'',
             ''category'', ''description'']"
  proof
    fix k assume "k \<in> dom (map_of d)"
    then have "item_fields es k \<noteq> None" by (auto simp: g)
    then show "k \<in> set [''title'', ''author'', ''pubDate'', ''link'',
             ''category'', ''description'']"
      unfolding item_fields_def by (simp split: if_splits)
  qed
  have ci: "map_of d ''category'' = (if ?cs = [] then None else Some (PList ?vs))"
    by (simp add: g item_fields_def category_seq_def Let_def)
  have i: "\<exists>item_dict vs. item_loop es [] = Inr item_dict
      \<and> map_of item_dict ''title'' = last_text ''title'' es
      \<and> map_of item_dict ''author'' = last_text ''author'' es
      \<and> map_of item_dict ''pubDate'' = last_text ''pubDate'' es
      \<and> map_of item_dict ''link'' = last_text ''link'' es
      \<and> map_of item_dict ''description'' = last_text ''description'' es
      \<and> map_of item_dict ''category'' = (if ?cs = [] then None else Some (PList vs))
      \<and> list_all2 category_text ?cs vs
      \<and> dom (map_of item_dict) \<subseteq> set [''title'', ''author'', ''pubDate'', ''link'',
             ''category'', ''description'']"
  proof -
    have "map_of d ''title'' = last_text ''title'' es"
      and "map_of d ''author'' = last_text ''author'' es"
      and "map_of d ''pubDate'' = last_text ''pubDate'' es"
      and "map_of d ''link'' = last_text ''link'' es"
      and "map_of d ''description'' = last_text ''description'' es"
      by (simp_all add: g item_fields_def)
    then show ?thesis
      by (intro exI[of _ d] exI[of _ ?vs] conjI d ci all2 di)
  qed
  have p: "(?cs \<noteq> []) = (''category'' \<in> set (map el_tag es))"
    by (force simp: filter_empty_conv)
  have l: "last_text t es
       = (if filter (\<lambda>e. el_tag e = t) es = [] then None
          else Some (case el_text (last (filter (\<lambda>e. el_tag e = t) es)) of
                       None \<Rightarrow> PNone | Some x \<Rightarrow> PStr x))"
    by (simp add: last_text_def Let_def text_val_def)
  have u: "category_text e v \<and> category_text e v' \<longrightarrow> v = v'"
  proof (intro impI, elim conjE)
    assume a: "category_text e v" and b: "category_text e v'"
    show "v = v'"
      using category_text_unique[OF a] category_text_unique[OF b] by simp
  qed
  have w: "trimmed_text s x \<and> trimmed_text s x' \<longrightarrow> x = x'"
  proof (intro impI, elim conjE)
    assume a: "trimmed_text s x" and b: "trimmed_text s x'"
    show "x = x'"
      using strip_unique[OF a] strip_unique[OF b] by simp
  qed
  have lp: "(last_text t es \<noteq> None) = (t \<in> set (map el_tag es))"
    by (rule last_text_present)
  show ?thesis
    by (rule conjI[OF c conjI[OF i conjI[OF lp conjI[OF p conjI[OF l conjI[OF u w]]]]]])
qed

theorem extraction_last_wins_categories_accumulate_witness:
  "\<exists>channel. channel_loop
       [Element ''title'' (Some ''A'') [], Element ''category'' None [],
        Element ''title'' (Some ''B'') [], Element ''category'' (Some '' c '') []] [] = Inr channel
     \<and> map_of channel ''title'' = Some (PStr ''B'')
     \<and> map_of channel ''link'' = None
     \<and> map_of channel ''category'' = Some (PList [PNone, PStr ''c''])"
proof -
  let ?e1 = "Element ''category'' None []"
  let ?e2 = "Element ''category'' (Some '' c '') []"
  let ?es = "[Element ''title'' (Some ''A'') [], ?e1, Element ''title'' (Some ''B'') [], ?e2]"
  have t: "last_text ''title'' ?es = Some (PStr ''B'')"
    by (simp add: last_text_def text_val_def)
  have l: "last_text ''link'' ?es = None"
    by (simp add: last_text_def)
  have cs: "filter (\<lambda>e. el_tag e = ''category'') ?es = [?e1, ?e2]" by simp
  have tr: "trimmed_text '' c '' ''c''"
    unfolding trimmed_text_def
    by (intro exI[of _ "'' ''"]) (simp add: isspace_def)
  have v1: "category_text ?e1 v \<Longrightarrow> v = PNone" for v
    by (simp add: category_text_def)
  have st: "strip '' c '' = ''c''" by (rule strip_unique[OF tr])
  have v2: "category_text ?e2 v \<Longrightarrow> v = PStr ''c''" for v
    using category_text_unique[of ?e2 v] by (simp add: category_val_def st)
  from extraction_last_wins_categories_accumulate[of ?es "''title''", THEN conjunct1]
  obtain channel vs where ch: "channel_loop ?es [] = Inr channel"
    "map_of channel ''title'' = last_text ''title'' ?es"
    "map_of channel ''link'' = last_text ''link'' ?es"
    and c: "map_of channel ''category''
        = (if filter (\<lambda>e. el_tag e = ''category'') ?es = [] then None else Some (PList vs))"
    and a: "list_all2 category_text (filter (\<lambda>e. el_tag e = ''category'') ?es) vs"
    by blast
  from a obtain a1 a2 where "vs = [a1, a2]" "category_text ?e1 a1" "category_text ?e2 a2"
    unfolding cs by (auto simp: list_all2_Cons1)
  then have "vs = [PNone, PStr ''c'']"
    using v1[of a1] v2[of a2] by simp
  with c have "map_of channel ''category'' = Some (PList [PNone, PStr ''c''])"
    unfolding cs by simp
  with ch t l show ?thesis by auto
qed

text \<open>
  Claim C3. The channel field \<open>pubDate\<close> is filled from the direct children of the channel
  tagged \<open>pudDate\<close> (the last one, when there is one); children tagged \<open>pubDate\<close> change
  nothing in the channel record, so that removing them all leaves the extraction of
  the channel as it was; the item field \<open>pubDate\<close> is filled from the children of the
  item tagged \<open>pubDate\<close>. The last part states this for a whole document with a channel.
\<close>

theorem channel_pubDate_read_from_pudDate:
  "(\<exists>channel. channel_loop es [] = Inr channel
       \<and> map_of channel ''pubDate'' = last_text ''pudDate'' es)
   \<and> channel_loop (filter (\<lambda>e. el_tag e \<noteq> ''pubDate'') es) [] = channel_loop es []
   \<and> (\<exists>item_dict. item_loop es [] = Inr item_dict
       \<and> map_of item_dict ''pubDate'' = last_text ''pubDate'' es)
   \<and> (find_el ''channel'' tree = Some c \<longrightarrow>
        (\<exists>channel item. extract_feed tree = Inr (channel, item)
           \<and> map_of channel ''pubDate'' = last_text ''pudDate'' (el_children c)
           \<and> list_all2 (\<lambda>el item_dict.
                  map_of item_dict ''pubDate'' = last_text ''pubDate'' (el_children el))
                (findall ''channel'' ''item'' tree) item))"
proof -
  have a: "\<exists>channel. channel_loop es [] = Inr channel
       \<and> map_of channel ''pubDate'' = last_text ''pudDate'' es"
    using channel_loop_fields[of es] by (auto simp: channel_fields_def)
  have b: "\<exists>item_dict. item_loop es [] = Inr item_dict
       \<and> map_of item_dict ''pubDate'' = last_text ''pubDate'' es"
    using item_loop_fields[of es] by (auto simp: item_fields_def)
  have d: "\<exists>channel item. extract_feed tree = Inr (channel, item)
           \<and> map_of channel ''pubDate'' = last_text ''pudDate'' (el_children c)
           \<and> list_all2 (\<lambda>el item_dict.
                  map_of item_dict ''pubDate'' = last_text ''pubDate'' (el_children el))
                (findall ''channel'' ''item'' tree) item"
    if "find_el ''channel'' tree = Some c"
  proof -
    from extract_feed_channel[OF that] obtain channel item where
      e: "extract_feed tree = Inr (channel, item)"
      and ch: "channel_loop (el_children c) [] = Inr channel"
      and it: "list_all2 (\<lambda>el d. item_loop (el_children el) [] = Inr d)
                (findall ''channel'' ''item'' tree) item" by blast
    have "map_of channel ''pubDate'' = last_text ''pudDate'' (el_children c)"
      using channel_loop_fields_eq[OF ch, of "''pubDate''"] by (simp add: channel_fields_def)
    moreover have "list_all2 (\<lambda>el item_dict.
                  map_of item_dict ''pubDate'' = last_text ''pubDate'' (el_children el))
                (findall ''channel'' ''item'' tree) item"
    proof (rule list_all2_mono[OF it])
      fix el d assume "item_loop (el_children el) [] = Inr d"
      from item_loop_fields_eq[OF this, of "''pubDate''"]
      show "map_of d ''pubDate'' = last_text ''pubDate'' (el_children el)"
        by (simp add: item_fields_def)
    qed
    ultimately show ?thesis using e by blast
  qed
  from a b d show ?thesis
    using channel_loop_skip_pubDate[of es "[]"] by blast
qed

theorem channel_pubDate_read_from_pudDate_witness:
  "find_el ''channel''
      (Element ''rss'' None
         [Element ''channel'' None
            [Element ''pudDate'' (Some ''Mon'') [], Element ''pubDate'' (Some ''Tue'') [],
             Element ''item'' None [Element ''pubDate'' (Some ''Wed'') []]]])
     = Some (Element ''channel'' None
            [Element ''pudDate'' (Some ''Mon'') [], Element ''pubDate'' (Some ''Tue'') [],
             Element ''item'' None [Element ''pubDate'' (Some ''Wed'') []]])
   \<and> (\<exists>channel item. extract_feed
      (Element ''rss'' None
         [Element ''channel'' None
            [Element ''pudDate'' (Some ''Mon'') [], Element ''pubDate'' (Some ''Tue'') [],
             Element ''item'' None [Element ''pubDate'' (Some ''Wed'') []]]]) = Inr (channel, item)
        \<and> map_of channel ''pubDate'' = Some (PStr ''Mon'')
        \<and> list_all2 (\<lambda>el item_dict. map_of item_dict ''pubDate'' = Some (PStr ''Wed''))
             [Element ''item'' None [Element ''pubDate'' (Some ''Wed'') []]] item)"
proof -
  let ?c = "Element ''channel'' None
            [Element ''pudDate'' (Some ''Mon'') [], Element ''pubDate'' (Some ''Tue'') [],
             Element ''item'' None [Element ''pubDate'' (Some ''Wed'') []]]"
  let ?t = "Element ''rss'' None [?c]"
  have f: "find_el ''channel'' ?t = Some ?c" by (simp add: find_el_def)
  have l: "last_text ''pudDate'' (el_children ?c) = Some (PStr ''Mon'')"
    by (simp add: last_text_def text_val_def)
  have fa: "findall ''channel'' ''item'' ?t = [Element ''item'' None [Element ''pubDate'' (Some ''Wed'') []]]"
    by (simp add: findall_def)
  have l2: "last_text ''pubDate'' [Element ''pubDate'' (Some ''Wed'') []] = Some (PStr ''Wed'')"
    by (simp add: last_text_def text_val_def)
  from channel_pubDate_read_from_pudDate[of "[]" ?t ?c] f
  obtain channel item where "extract_feed ?t = Inr (channel, item)"
    "map_of channel ''pubDate'' = last_text ''pudDate'' (el_children ?c)"
    "list_all2 (\<lambda>el item_dict.
                  map_of item_dict ''pubDate'' = last_text ''pubDate'' (el_children el))
                (findall ''channel'' ''item'' ?t) item" by blast
  then have "extract_feed ?t = Inr (channel, item)
        \<and> map_of channel ''pubDate'' = Some (PStr ''Mon'')
        \<and> list_all2 (\<lambda>el item_dict. map_of item_dict ''pubDate'' = Some (PStr ''Wed''))
             [Element ''item'' None [Element ''pubDate'' (Some ''Wed'') []]] item"
    unfolding fa l by (simp add: l2 list_all2_Cons1)
  then show ?thesis using f by blast
qed

section \<open>When the function fails before rendering\<close>

text \<open>
  Claim C6, as amended. When the parser raises an error on the text, as it does with
  the parse error on a text it finds not well-formed, the function fails with that
  error; when the parser returns a root element without a direct child tagged
  \<open>channel\<close>, the function fails with a type error; both whatever the limit and the
  mode, and nothing is returned. When the root element has a direct child tagged
  \<open>channel\<close>, the extraction does not fail.
\<close>

theorem rss_parser_fails_without_channel_child:
  "rss_parser (Raised err) limit json = Inl err
   \<and> (''channel'' \<notin> set (map el_tag (el_children tree)) \<longrightarrow>
        rss_parser (WellFormed tree) limit json = Inl TypeError)
   \<and> (''channel'' \<in> set (map el_tag (el_children tree')) \<longrightarrow>
        (\<exists>channel item. extract_feed tree' = Inr (channel, item)))"
proof -
  have a: "rss_parser (Raised err) limit json = Inl err"
    by (simp add: rss_parser_def)
  have b: "rss_parser (WellFormed tree) limit json = Inl TypeError"
    if "''channel'' \<notin> set (map el_tag (el_children tree))"
    using extract_feed_no_channel[OF that] by (simp add: rss_parser_def)
  have c: "\<exists>channel item. extract_feed tree' = Inr (channel, item)"
    if "''channel'' \<in> set (map el_tag (el_children tree'))"
  proof -
    from that have "find_el ''channel'' tree' \<noteq> None" by (simp add: find_el_None)
    then obtain c where "find_el ''channel'' tree' = Some c" by blast
    from extract_feed_channel[OF this] show ?thesis by blast
  qed
  from a b c show ?thesis by blast
qed

theorem rss_parser_fails_without_channel_child_witness:
  "rss_parser (Raised ParseError) None False = Inl ParseError
   \<and> ''channel'' \<notin> set (map el_tag (el_children channel_root_tree))
   \<and> rss_parser (WellFormed channel_root_tree) None False = Inl TypeError
   \<and> ''channel'' \<in> set (map el_tag (el_children two_channels_tree))
   \<and> (\<exists>channel item. extract_feed two_channels_tree = Inr (channel, item))"
proof -
  have a: "''channel'' \<notin> set (map el_tag (el_children channel_root_tree))"
    by (simp add: channel_root_tree_def)
  have b: "''channel'' \<in> set (map el_tag (el_children two_channels_tree))"
    by (simp add: two_channels_tree_def)
  from rss_parser_fails_without_channel_child[of ParseError None False channel_root_tree
      two_channels_tree]
    a b show ?thesis by blast
qed

text \<open>
  The claim as it stands fails on a well-formed document whose \<open>channel\<close> element is the
  root, or lies deeper than the children of the root: such a document has a \<open>channel\<close>
  element and the extraction fails with a type error.
\<close>

theorem channel_not_child_of_root_counterexample:
  "all_tagged ''channel'' channel_root_tree \<noteq> []
   \<and> extract_feed channel_root_tree = Inl TypeError
   \<and> rss_parser (WellFormed channel_root_tree) None False = Inl TypeError
   \<and> all_tagged ''channel'' channel_nested_tree \<noteq> []
   \<and> extract_feed channel_nested_tree = Inl TypeError
   \<and> rss_parser (WellFormed channel_nested_tree) None True = Inl TypeError"
  by (simp add: channel_root_tree_def channel_nested_tree_def extract_feed_def find_el_def
        rss_parser_def)

section \<open>Several channels\<close>

text \<open>
  Claim C10, as amended. When the root element has more than one direct child tagged
  \<open>channel\<close>, the extraction succeeds, the channel record is the one built from the
  children of the first of them alone, and the item records are built, one by one and in
  document order, from the \<open>item\<close> children of all of them.
\<close>

theorem first_channel_record_items_of_all_channels:
  assumes "filter (\<lambda>c. el_tag c = ''channel'') (el_children tree) = c # cs" and "cs \<noteq> []"
  shows "\<exists>channel item. extract_feed tree = Inr (channel, item)
           \<and> channel_loop (el_children c) [] = Inr channel
           \<and> list_all2 (\<lambda>el item_dict. item_loop (el_children el) [] = Inr item_dict)
                (concat (map item_children (c # cs))) item"
proof -
  have "findall ''channel'' ''item'' tree = concat (map item_children (c # cs))"
    unfolding findall_def assms(1) item_children_def[abs_def] by simp
  with extract_feed_channel[OF find_el_first[OF assms(1)]] show ?thesis by simp
qed

theorem first_channel_record_items_of_all_channels_witness:
  "filter (\<lambda>c. el_tag c = ''channel'') (el_children two_channels_tree)
     = [Element ''channel'' None
          [Element ''title'' (Some ''T1'') [],
           Element ''item'' None [Element ''title'' (Some ''I1'') []]],
        Element ''channel'' None
          [Element ''title'' (Some ''T2'') [],
           Element ''item'' None [Element ''title'' (Some ''I2'') []]]]
   \<and> extract_feed two_channels_tree
       = Inr ([(''title'', PStr ''T1'')], [[(''title'', PStr ''I1'')], [(''title'', PStr ''I2'')]])"
proof -
  let ?c1 = "Element ''channel'' None
          [Element ''title'' (Some ''T1'') [],
           Element ''item'' None [Element ''title'' (Some ''I1'') []]]"
  let ?c2 = "Element ''channel'' None
          [Element ''title'' (Some ''T2'') [],
           Element ''item'' None [Element ''title'' (Some ''I2'') []]]"
  have f: "filter (\<lambda>c. el_tag c = ''channel'') (el_children two_channels_tree) = ?c1 # [?c2]"
    by (simp add: two_channels_tree_def)
  have c: "channel_loop (el_children ?c1) [] = Inr [(''title'', PStr ''T1'')]"
    by (simp add: channel_step_def text_val_def)
  have i: "concat (map item_children (?c1 # [?c2]))
      = [Element ''item'' None [Element ''title'' (Some ''I1'') []],
         Element ''item'' None [Element ''title'' (Some ''I2'') []]]"
    by (simp add: item_children_def)
  from first_channel_record_items_of_all_channels[OF f]
  obtain channel item where e: "extract_feed two_channels_tree = Inr (channel, item)"
    and "channel_loop (el_children ?c1) [] = Inr channel"
    and l: "list_all2 (\<lambda>el item_dict. item_loop (el_children el) [] = Inr item_dict)
                (concat (map item_children (?c1 # [?c2]))) item" by blast
  then have "channel = [(''title'', PStr ''T1'')]" using c by simp
  moreover have "item = [[(''title'', PStr ''I1'')], [(''title'', PStr ''I2'')]]"
    using l unfolding i by (auto simp: list_all2_Cons1 item_step_def text_val_def)
  ultimately show ?thesis using e f by simp
qed

text \<open>
  The claim as it stands speaks of every document with more than one \<open>channel\<close> element.
  It fails when the second channel lies inside the first (its item is not collected), and
  when the two channels are not children of the root (nothing is extracted at all).
\<close>

theorem channels_elsewhere_counterexample:
  "length (all_tagged ''channel'' channel_in_channel_tree) = 2
   \<and> concat (map item_children (all_tagged ''channel'' channel_in_channel_tree))
       = [Element ''item'' None [Element ''title'' (Some ''I'') []]]
   \<and> extract_feed channel_in_channel_tree = Inr ([(''title'', PStr ''T'')], [])
   \<and> length (all_tagged ''channel'' channels_below_child_tree) = 2
   \<and> extract_feed channels_below_child_tree = Inl TypeError"
  by (simp add: channel_in_channel_tree_def channels_below_child_tree_def item_children_def
        extract_feed_def find_el_def findall_def channel_step_def text_val_def)

section \<open>Selecting the items\<close>

lemma take_eq_take_iff:
  "(take a xs = take b xs) = (min a (length xs) = min b (length xs))"
proof
  assume "take a xs = take b xs"
  then have "length (take a xs) = length (take b xs)" by simp
  then show "min a (length xs) = min b (length xs)" by (simp add: min.commute)
next
  assume h: "min a (length xs) = min b (length xs)"
  have "take a xs = take (min a (length xs)) xs" by (simp add: min_def)
  also have "\<dots> = take (min b (length xs)) xs" by (simp add: h)
  also have "\<dots> = take b xs" by (simp add: min_def)
  finally show "take a xs = take b xs" .
qed

lemma select_items_None [simp]: "select_items item None = item"
  by (simp add: select_items_def)

lemma select_items_zero [simp]: "select_items item (Some 0) = item"
  by (simp add: select_items_def)

lemma select_items_pos: "0 < L \<Longrightarrow> select_items item (Some L) = take (nat L) item"
  by (simp add: select_items_def slice_to_def)

lemma select_items_neg:
  "L < 0 \<Longrightarrow> select_items item (Some L) = take (length item - nat (- L)) item"
proof -
  assume "L < 0"
  then have "nat (int (length item) + L) = length item - nat (- L)" by arith
  with \<open>L < 0\<close> show ?thesis by (simp add: select_items_def slice_to_def)
qed

text \<open>Rendering depends on the items and the limit only through the selection.\<close>

lemma render_select:
  "select_items item limit = select_items item' limit' \<Longrightarrow>
   render channel item limit json = render channel item' limit' json"
  by (simp add: render_def render_json_def json_data_def render_text_def)

lemma json_data_items:
  assumes "json_data channel item limit = Inr data"
  shows "map_of data ''items'' = Some (PList (map PDict (select_items item limit)))"
proof (cases "map_of channel ''category''")
  case None
  with assms show ?thesis
    by (auto simp: json_data_def Let_def map_of_dict_set)
next
  case (Some c)
  with assms show ?thesis
    by (cases "py_join [] c") (auto simp: json_data_def Let_def map_of_dict_set)
qed

text \<open>
  Claim C1. For a feed with the items \<open>item\<close>: with a limit \<open>L\<close> such that \<open>0 < L < N\<close> the
  items selected are exactly the first \<open>L\<close>, in their order, in both modes (the result is
  the one obtained without a limit from the feed cut to its first \<open>L\<close> items, and in
  JSON mode the key \<open>items\<close> holds those \<open>L\<close> records); without a limit, or with the limit
  \<open>0\<close>, all the items are selected, and the limit \<open>0\<close> gives the same result as no limit.
\<close>

theorem limit_selects_first_items:
  "(0 < L \<and> L < int (length item) \<longrightarrow>
        select_items item (Some L) = take (nat L) item
      \<and> length (select_items item (Some L)) = nat L
      \<and> render channel item (Some L) json = render channel (take (nat L) item) None json
      \<and> (json_data channel item (Some L) = Inr data \<longrightarrow>
            map_of data ''items'' = Some (PList (map PDict (take (nat L) item))))
      \<and> render_text channel item (Some L)
          = err_bind (render_channel channel) (text_loop (take (nat L) item))
      \<and> (extract_feed tree = Inr (channel, item) \<longrightarrow>
            rss_parser (WellFormed tree) (Some L) json
              = render channel (take (nat L) item) None json))
   \<and> select_items item (Some 0) = item
   \<and> select_items item None = item
   \<and> render channel item (Some 0) json = render channel item None json
   \<and> rss_parser xml (Some 0) json = rss_parser xml None json"
proof -
  have pos: "select_items item (Some L) = take (nat L) item
      \<and> length (select_items item (Some L)) = nat L
      \<and> render channel item (Some L) json = render channel (take (nat L) item) None json
      \<and> (json_data channel item (Some L) = Inr data \<longrightarrow>
            map_of data ''items'' = Some (PList (map PDict (take (nat L) item))))
      \<and> render_text channel item (Some L)
          = err_bind (render_channel channel) (text_loop (take (nat L) item))
      \<and> (extract_feed tree = Inr (channel, item) \<longrightarrow>
            rss_parser (WellFormed tree) (Some L) json
              = render channel (take (nat L) item) None json)"
    if "0 < L" "L < int (length item)"
  proof -
    have s: "select_items item (Some L) = take (nat L) item"
      using that by (simp add: select_items_pos)
    have n: "length (select_items item (Some L)) = nat L"
      using that by (simp add: s)
    have r: "render channel item (Some L) json = render channel (take (nat L) item) None json"
      by (rule render_select) (simp add: s)
    have j: "map_of data ''items'' = Some (PList (map PDict (take (nat L) item)))"
      if "json_data channel item (Some L) = Inr data"
      using json_data_items[OF that] by (simp add: s)
    have t: "render_text channel item (Some L)
          = err_bind (render_channel channel) (text_loop (take (nat L) item))"
      by (simp add: render_text_def s)
    have p: "rss_parser (WellFormed tree) (Some L) json
              = render channel (take (nat L) item) None json"
      if "extract_feed tree = Inr (channel, item)"
      using that r by (simp add: rss_parser_def)
    from s n r j t p show ?thesis by blast
  qed
  have z: "render channel item (Some 0) json = render channel item None json"
    by (rule render_select) simp
  have p0: "select_items item (Some 0) = item" and pn: "select_items item None = item"
    by simp_all
  have "rss_parser xml (Some 0) json = rss_parser xml None json"
  proof (cases "fromstring xml")
    case (Inl e)
    then show ?thesis by (simp add: rss_parser_def)
  next
    case (Inr tree)
    show ?thesis
    proof (cases "extract_feed tree")
      case (Inl e)
      with Inr show ?thesis by (simp add: rss_parser_def)
    next
      case r: (Inr p)
      obtain ch it where "p = (ch, it)" by (cases p)
      with Inr r render_select[of it "Some 0" it None ch json]
      show ?thesis by (simp add: rss_parser_def)
    qed
  qed
  with pos z p0 pn show ?thesis by blast
qed

theorem limit_selects_first_items_witness:
  "0 < (1::int) \<and> (1::int) < int (length [[(''title'', PStr ''A'')], [(''title'', PStr ''B'')]])
   \<and> select_items [[(''title'', PStr ''A'')], [(''title'', PStr ''B'')]] (Some 1)
       = [[(''title'', PStr ''A'')]]
   \<and> rss_parser example_doc (Some 1) True
       = render [(''title'', PStr ''Example''), (''link'', PStr ''http://x'')]
           [[(''title'', PStr ''A'')]] None True
   \<and> rss_parser example_doc (Some 1) False
       = render [(''title'', PStr ''Example''), (''link'', PStr ''http://x'')]
           [[(''title'', PStr ''A'')]] None False"
proof -
  let ?item = "[[(''title'', PStr ''A'')], [(''title'', PStr ''B'')]]"
  let ?channel = "[(''title'', PStr ''Example''), (''link'', PStr ''http://x'')]"
  let ?tree = "Element ''rss'' None [example_channel]"
  have e: "extract_feed ?tree = Inr (?channel, ?item)"
    by (simp add: example_channel_def extract_feed_def find_el_def findall_def
          channel_step_def item_step_def text_val_def)
  have h: "0 < (1::int) \<and> (1::int) < int (length ?item)" by simp
  from limit_selects_first_items[of 1 ?item ?channel True _ ?tree] h e
  have a: "select_items ?item (Some 1) = take (nat 1) ?item"
    and b: "rss_parser (WellFormed ?tree) (Some 1) True = render ?channel (take (nat 1) ?item) None True"
    by blast+
  from limit_selects_first_items[of 1 ?item ?channel False _ ?tree] h e
  have c: "rss_parser (WellFormed ?tree) (Some 1) False = render ?channel (take (nat 1) ?item) None False"
    by blast
  from a b c show ?thesis by (simp add: example_doc_def)
qed

text \<open>
  Claim C8, as amended. For every feed with \<open>N\<close> items and every negative limit \<open>L\<close>, the
  limit is accepted and causes no failure of its own: in both modes the result is the
  one obtained without a limit from the feed cut to all its items except the last \<open>|L|\<close>
  (none when \<open>|L| \<ge> N\<close>). These are the first \<open>|L|\<close> items only when \<open>N = 0\<close> or
  \<open>N = 2 |L|\<close>.
\<close>

theorem negative_limit_drops_last_items:
  assumes "L < 0"
  shows "select_items item (Some L) = take (length item - nat (- L)) item
     \<and> select_items item (Some L) = rev (drop (nat (- L)) (rev item))
     \<and> render channel item (Some L) json
         = render channel (take (length item - nat (- L)) item) None json
     \<and> (extract_feed tree = Inr (channel, item) \<longrightarrow>
           rss_parser (WellFormed tree) (Some L) json
             = render channel (take (length item - nat (- L)) item) None json)
     \<and> ((select_items item (Some L) = take (nat (- L)) item)
           = (length item = 0 \<or> length item = 2 * nat (- L)))"
proof -
  have s: "select_items item (Some L) = take (length item - nat (- L)) item"
    using assms by (rule select_items_neg)
  have d: "select_items item (Some L) = rev (drop (nat (- L)) (rev item))"
    by (simp add: s rev_drop)
  have r: "render channel item (Some L) json
         = render channel (take (length item - nat (- L)) item) None json"
    by (rule render_select) (simp add: s)
  have p: "rss_parser (WellFormed tree) (Some L) json
             = render channel (take (length item - nat (- L)) item) None json"
    if "extract_feed tree = Inr (channel, item)"
    using that r by (simp add: rss_parser_def)
  have "0 < nat (- L)" using assms by simp
  then have c: "(select_items item (Some L) = take (nat (- L)) item)
           = (length item = 0 \<or> length item = 2 * nat (- L))"
    unfolding s take_eq_take_iff by (auto simp: min_def)
  from s d r p c show ?thesis by blast
qed

theorem negative_limit_drops_last_items_witness:
  "(- 1 :: int) < 0
   \<and> select_items [[(''title'', PStr ''A'')], [(''title'', PStr ''B'')], [(''title'', PStr ''C'')]]
        (Some (- 1))
       = [[(''title'', PStr ''A'')], [(''title'', PStr ''B'')]]
   \<and> select_items [[(''title'', PStr ''A'')], [(''title'', PStr ''B'')], [(''title'', PStr ''C'')]]
        (Some (- 1))
       \<noteq> take 1 [[(''title'', PStr ''A'')], [(''title'', PStr ''B'')], [(''title'', PStr ''C'')]]"
proof -
  let ?item = "[[(''title'', PStr ''A'')], [(''title'', PStr ''B'')], [(''title'', PStr ''C'')]]"
  have h: "(- 1 :: int) < 0" by simp
  from negative_limit_drops_last_items[OF h, of ?item]
  have "select_items ?item (Some (- 1)) = take (length ?item - nat (- (- 1))) ?item"
    and "(select_items ?item (Some (- 1)) = take (nat (- (- 1))) ?item)
           = (length ?item = 0 \<or> length ?item = 2 * nat (- (- 1)))"
    by blast+
  then show ?thesis by simp
qed

text \<open>
  The claim as it stands says that a negative limit never selects the first \<open>|L|\<close> items.
  On the example feed, which has the two items A and B, the limit \<open>- 1\<close> selects item A
  alone, which is the first \<open>|- 1| = 1\<close> item, and the result is the one of the limit \<open>1\<close>.
\<close>

theorem negative_limit_first_items_counterexample:
  "select_items [[(''title'', PStr ''A'')], [(''title'', PStr ''B'')]] (Some (- 1))
     = take (nat \<bar>- 1\<bar>) [[(''title'', PStr ''A'')], [(''title'', PStr ''B'')]]
   \<and> rss_parser example_doc (Some (- 1)) False
       = Inr [PStr ''Feed: Example'', PStr ''Link: http://x'',
              PStr '' '', PStr ''Title: A'', PStr '' '', PStr '' '']
   \<and> rss_parser example_doc (Some (- 1)) False = rss_parser example_doc (Some 1) False
   \<and> rss_parser example_doc (Some (- 1)) True = rss_parser example_doc (Some 1) True"
  by (simp add: example_doc_def example_channel_def rss_parser_def extract_feed_def find_el_def
        findall_def channel_step_def item_step_def text_val_def render_def render_text_def
        render_json_def json_data_def render_channel_def render_item_def dict_get_def
        opt_line_def select_items_def slice_to_def)

section \<open>The example of the specification\<close>

text \<open>
  Claim C7. For the document whose channel is the example channel (title Example, link
  http://x, items A and B), whatever its root element, with limit 1 in text mode the
  function returns exactly six lines: \<open>Feed: Example\<close>, \<open>Link: http://x\<close>, a blank line,
  \<open>Title: A\<close>, a blank line, a blank line. A blank line is the string of one space, as
  lines 109, 119 and 122 append it. There is no description line and nothing for item B.
\<close>

theorem example_feed_limit_one_text:
  "rss_parser (WellFormed (Element root_tag root_text [example_channel])) (Some 1) False
     = Inr [PStr ''Feed: Example'', PStr ''Link: http://x'',
            PStr '' '', PStr ''Title: A'', PStr '' '', PStr '' '']"
  by (simp add: example_channel_def rss_parser_def extract_feed_def find_el_def
        findall_def channel_step_def item_step_def text_val_def render_def render_text_def
        render_channel_def render_item_def dict_get_def opt_line_def select_items_def
        slice_to_def)

theorem example_feed_limit_one_text_witness:
  "rss_parser example_doc (Some 1) False
     = Inr [PStr ''Feed: Example'', PStr ''Link: http://x'',
            PStr '' '', PStr ''Title: A'', PStr '' '', PStr '' '']"
  using example_feed_limit_one_text[of "''rss''" None] by (simp add: example_doc_def)

section \<open>Joining categories that contain null\<close>

lemma py_join_list:
  "py_join sep (PList xs)
     = (if list_all is_str xs then Inr (join_strs sep (map str_of xs)) else Inl TypeError)"
  by (simp add: py_join_def)


lemma join_strs_empty_sep: "join_strs [] xs = concat xs"
  by (induction xs rule: induct_list012) auto









section \<open>The channel categories in the two modes\<close>

text \<open>In JSON mode the channel categories are joined with the empty separator, which
  gives their concatenation when they are all strings and a type error otherwise; the
  other channel fields never make the JSON mode fail.\<close>

lemma map_of_copy_field:
  "map_of (copy_field k channel data) k'
     = (if k' = k \<and> map_of channel k \<noteq> None then map_of channel k else map_of data k')"
  by (auto simp: copy_field_def map_of_dict_set split: option.splits)

lemma json_data_category:
  assumes "map_of channel ''category'' = Some (PList cats)"
  shows "list_all is_str cats \<Longrightarrow>
           \<exists>data. json_data channel item limit = Inr data
             \<and> map_of data ''category'' = Some (PStr (concat (map str_of cats)))"
    and "\<not> list_all is_str cats \<Longrightarrow> json_data channel item limit = Inl TypeError"
  using assms
  by (simp_all add: json_data_def Let_def py_join_list join_strs_empty_sep map_of_dict_set
        map_of_copy_field)

lemma json_data_no_category:
  "map_of channel ''category'' = None \<Longrightarrow> \<exists>data. json_data channel item limit = Inr data"
  by (simp add: json_data_def Let_def)

lemma render_json_succeeds:
  assumes "map_of channel ''category'' = None
           \<or> (\<exists>cats. map_of channel ''category'' = Some (PList cats) \<and> list_all is_str cats)"
  shows "\<exists>data. render_json channel item limit = Inr [PStr (dumps (PDict data))]"
proof -
  from assms obtain data where "json_data channel item limit = Inr data"
    using json_data_no_category[of channel item limit]
      json_data_category(1)[of channel _ item limit] by blast
  then have "render_json channel item limit = Inr [PStr (dumps (PDict data))]"
    by (simp add: render_json_def)
  then show ?thesis by blast
qed

text \<open>In text mode the channel categories are printed as the list itself.\<close>

lemma text_channel_category_line:
  "map_of channel ''category'' = Some (PList cats) \<Longrightarrow>
   opt_line ''Categories: '' ''category'' channel = [PStr (''Categories: '' @ repr (PList cats))]"
  by (simp add: opt_line_def)

text \<open>Text mode fails with a key error whenever the channel record lacks the title or
  the link.\<close>

lemma render_text_missing_title_or_link:
  assumes "map_of channel ''title'' = None \<or> map_of channel ''link'' = None"
  shows "render_text channel item limit = Inl (KeyError ''title'')
         \<or> render_text channel item limit = Inl (KeyError ''link'')"
  using assms
  by (auto simp: render_text_def render_channel_def dict_get_def split: option.splits)

text \<open>
  Claim C2 on the feed whose channel has a title, a link and one \<open>category\<close> child without
  text: the channel category sequence is the list holding null; text mode prints it as
  a list, while JSON mode raises a type error at the join of line 86 and produces no
  \<open>category\<close> value at all.
\<close>

theorem json_channel_category_null_fails:
  "rss_parser null_category_doc None True = Inl TypeError
   \<and> rss_parser null_category_doc None False
       = Inr [PStr ''Feed: T'', PStr ''Link: L'', PStr ''Categories: [None]'']"
  by (simp add: null_category_doc_def rss_parser_def extract_feed_def find_el_def
        findall_def channel_step_def append_category_def text_val_def category_val_def
        render_def render_json_def json_data_def copy_field_def py_join_def
        render_text_def render_channel_def dict_get_def opt_line_def)

section \<open>A channel without title or link\<close>

text \<open>
  Claim C4 on the feed whose channel has only a \<open>category\<close> child without text: the
  channel record lacks the title and the link, text mode raises the key error for the
  title, and JSON mode fails too, with the type error of the join of line 86.
\<close>

theorem json_fails_without_title_on_null_category:
  "rss_parser empty_category_doc None False = Inl (KeyError ''title'')
   \<and> rss_parser empty_category_doc None True = Inl TypeError"
  by (simp add: empty_category_doc_def rss_parser_def extract_feed_def find_el_def
        findall_def channel_step_def append_category_def category_val_def
        render_def render_json_def json_data_def copy_field_def py_join_def
        render_text_def render_channel_def dict_get_def)

end
